theory Spec2Isabelle
  imports Main "HOL-Library.Multiset" "HOL-Library.Sublist"
begin

section \<open>The PDF text pipeline of stapp.py\<close>

text \<open>
  The program reads every PDF of a folder, removes English stopwords from its text,
  builds an extractive summary and a keyword list from word frequencies, and stores
  one record per document in MongoDB. The development below embeds the functions of
  \<^verbatim>\<open>stapp.py\<close> one by one, under their own names.

  Text is modelled as \<^typ>\<open>string\<close> over ASCII: the character classes below are
  those of Python's \<^verbatim>\<open>str\<close> methods restricted to code points below 128, and
  a character at or above 128 is treated as an ordinary symbol (no space, no letter).
\<close>

subsection \<open>Python's string methods\<close>

text \<open>\<^verbatim>\<open>str.isspace\<close> on one ASCII character: TAB, LF, VT, FF, CR, FS, GS, RS, US
  and the blank.\<close>

definition is_space :: "char \<Rightarrow> bool" where
  "is_space c =
     (let n = (of_char c :: nat) in (9 \<le> n \<and> n \<le> 13) \<or> (28 \<le> n \<and> n \<le> 32))"

definition is_upper :: "char \<Rightarrow> bool" where
  "is_upper c = (let n = (of_char c :: nat) in 65 \<le> n \<and> n \<le> 90)"

definition is_lower :: "char \<Rightarrow> bool" where
  "is_lower c = (let n = (of_char c :: nat) in 97 \<le> n \<and> n \<le> 122)"

definition is_alpha :: "char \<Rightarrow> bool" where
  "is_alpha c = (is_upper c \<or> is_lower c)"

definition lower_char :: "char \<Rightarrow> char" where
  "lower_char c = (if is_upper c then char_of ((of_char c :: nat) + 32) else c)"

text \<open>\<^verbatim>\<open>s.lower()\<close>.\<close>

definition lower :: "string \<Rightarrow> string" where
  "lower s = map lower_char s"

text \<open>\<^verbatim>\<open>s.isalpha()\<close>: at least one character, and every character a letter.\<close>

definition isalpha :: "string \<Rightarrow> bool" where
  "isalpha s = (s \<noteq> [] \<and> list_all is_alpha s)"

text \<open>\<^verbatim>\<open>s.strip()\<close>: the white space at both ends is removed.\<close>

definition strip :: "string \<Rightarrow> string" where
  "strip s = rev (dropWhile is_space (rev (dropWhile is_space s)))"

text \<open>
  \<^verbatim>\<open>s.split()\<close> with no argument: the maximal runs of characters that are not white
  space, in order; no empty string is ever produced. The scan keeps the run read so
  far in \<open>cur\<close>.
\<close>

fun split_loop :: "string \<Rightarrow> string \<Rightarrow> string list" where
  "split_loop cur [] = (if cur = [] then [] else [cur])"
| "split_loop cur (c # cs) =
     (if is_space c
      then (if cur = [] then split_loop [] cs else cur # split_loop [] cs)
      else split_loop (cur @ [c]) cs)"

definition split :: "string \<Rightarrow> string list" where
  "split s = split_loop [] s"

text \<open>A word: at least one character, none of them white space.\<close>

definition is_word :: "string \<Rightarrow> bool" where
  "is_word w = (w \<noteq> [] \<and> list_all (\<lambda>c. \<not> is_space c) w)"

text \<open>\<^verbatim>\<open>" ".join(xs)\<close>.\<close>

fun join_sp :: "string list \<Rightarrow> string" where
  "join_sp [] = []"
| "join_sp [x] = x"
| "join_sp (x # y # ys) = x @ CHR '' '' # join_sp (y # ys)"

text \<open>\<^verbatim>\<open>s.endswith(suffix)\<close>.\<close>

definition endswith :: "string \<Rightarrow> string \<Rightarrow> bool" where
  "endswith s suf = (length suf \<le> length s \<and> drop (length s - length suf) s = suf)"

subsection \<open>The collaborators\<close>

text \<open>
  An exception in flight. \<open>Exception m\<close> is an instance of (a subclass of) Python's
  \<^verbatim>\<open>Exception\<close> whose \<^verbatim>\<open>str(e)\<close> is \<open>m\<close>: the only kind that
  \<^verbatim>\<open>except Exception\<close> handles. \<open>BaseException m\<close> is one outside that class
  (\<^verbatim>\<open>KeyboardInterrupt\<close>, \<^verbatim>\<open>SystemExit\<close>), which passes through such a handler.
\<close>

datatype exn = Exception string | BaseException string

text \<open>The document that \<^verbatim>\<open>insert_one\<close> receives.\<close>

record summary_record =
  pdf_name :: string
  summary :: string
  keywords_list :: "string list"

text \<open>
  The libraries and services the program calls are not part of it; they are the
  fields of this record, and every function below takes it as its first argument.
  \<^item> \<open>sent_tokenize\<close>, \<open>word_tokenize\<close>: NLTK's tokenizers;
  \<^item> \<open>stopwords_english\<close>: \<^verbatim>\<open>stopwords.words('english')\<close>;
  \<^item> \<open>pdf_open\<close>: \<^verbatim>\<open>pdfplumber.open\<close>, which raises or gives the pages, each page
    being the outcome of its \<^verbatim>\<open>extract_text()\<close> (an exception, \<^verbatim>\<open>None\<close> or a text);
  \<^item> \<open>os_listdir\<close>: \<^verbatim>\<open>os.listdir\<close>, which raises when the folder cannot be read;
  \<^item> \<open>mongo_insert_one\<close>: connecting to MongoDB and inserting one document into the
    collection of the database named; \<open>None\<close> when the write went through, the
    exception otherwise.
\<close>

record env =
  sent_tokenize :: "string \<Rightarrow> string list"
  word_tokenize :: "string \<Rightarrow> string list"
  stopwords_english :: "string list"
  pdf_open :: "string \<Rightarrow> exn + (exn + string option) list"
  os_listdir :: "string \<Rightarrow> exn + string list"
  mongo_insert_one :: "string \<Rightarrow> string \<Rightarrow> summary_record \<Rightarrow> exn option"

subsection \<open>remove_stopwords\<close>

definition remove_stopwords :: "env \<Rightarrow> string \<Rightarrow> string" where
  "remove_stopwords E text =
     (let stop_words = set (stopwords_english E);
          filtered_words = filter (\<lambda>word. lower word \<notin> stop_words) (split text)
      in join_sp filtered_words)"

subsection \<open>Counter, sorted and slices\<close>

text \<open>
  \<^verbatim>\<open>collections.Counter\<close> is a dictionary, and a dictionary keeps its keys in the
  order of their first insertion: an association list, where counting a word again
  raises its count in place and a new word goes to the end.
\<close>

fun counter_add :: "(string \<times> int) list \<Rightarrow> string \<Rightarrow> (string \<times> int) list" where
  "counter_add [] w = [(w, 1)]"
| "counter_add ((k, n) # c) w =
     (if k = w then (k, n + 1) # c else (k, n) # counter_add c w)"

definition Counter :: "string list \<Rightarrow> (string \<times> int) list" where
  "Counter ws = foldl counter_add [] ws"

text \<open>\<^verbatim>\<open>word_freq[word]\<close>: a \<^verbatim>\<open>Counter\<close> answers 0 for a key it does not hold.\<close>

definition counter_get :: "(string \<times> int) list \<Rightarrow> string \<Rightarrow> int" where
  "counter_get c w = (case map_of c w of None \<Rightarrow> 0 | Some n \<Rightarrow> n)"

text \<open>
  \<^verbatim>\<open>sorted(xs, key=key, reverse=True)\<close>: descending in the key, and stable (the
  elements with equal keys keep the order they had in \<open>xs\<close>, also under
  \<^verbatim>\<open>reverse=True\<close>).
\<close>

definition sorted_reverse :: "('a \<Rightarrow> int) \<Rightarrow> 'a list \<Rightarrow> 'a list" where
  "sorted_reverse key xs = sort_key (\<lambda>x. - key x) xs"

text \<open>
  \<^verbatim>\<open>c.most_common(n)\<close> for an integer \<open>n\<close> is \<^verbatim>\<open>heapq.nlargest(n, c.items(), key=count)\<close>,
  which is the first \<open>n\<close> items of the stable descending sort, and the empty list when
  \<open>n \<le> 0\<close>.
\<close>

definition most_common :: "int \<Rightarrow> (string \<times> int) list \<Rightarrow> (string \<times> int) list" where
  "most_common n c = (if n \<le> 0 then [] else take (nat n) (sorted_reverse snd c))"

text \<open>
  The slice \<^verbatim>\<open>xs[:k]\<close>: the first \<open>k\<close> elements, and for a negative \<open>k\<close> all but
  the last \<open>-k\<close>.
\<close>

definition slice_to :: "int \<Rightarrow> 'a list \<Rightarrow> 'a list" where
  "slice_to k xs = (if 0 \<le> k then take (nat k) xs else take (length xs - nat (- k)) xs)"

subsection \<open>custom_summarization\<close>

text \<open>
  The key of the sort, \<^verbatim>\<open>sum(word_freq[word] for word in word_tokenize(sentence.lower()))\<close>,
  with \<^verbatim>\<open>word_freq = Counter(word_tokenize(text.lower()))\<close>.
\<close>

definition sentence_score :: "env \<Rightarrow> string \<Rightarrow> string \<Rightarrow> int" where
  "sentence_score E text sentence =
     (let words = word_tokenize E (lower text);
          word_freq = Counter words
      in sum_list (map (counter_get word_freq) (word_tokenize E (lower sentence))))"

definition ranked_sentences :: "env \<Rightarrow> string \<Rightarrow> string list" where
  "ranked_sentences E text =
     (let sentences = sent_tokenize E text
      in sorted_reverse (sentence_score E text) sentences)"

text \<open>The sentences that go into the summary, \<^verbatim>\<open>ranked_sentences[:num_sentences]\<close>.\<close>

definition summary_sentences :: "env \<Rightarrow> string \<Rightarrow> int \<Rightarrow> string list" where
  "summary_sentences E text num_sentences = slice_to num_sentences (ranked_sentences E text)"

definition custom_summarization :: "env \<Rightarrow> string \<Rightarrow> int \<Rightarrow> string" where
  "custom_summarization E text num_sentences =
     (if strip text = [] then []
      else join_sp (summary_sentences E text num_sentences))"

subsection \<open>extract_keywords\<close>

text \<open>The text that is tokenized: stopwords dropped word by word, then lower-cased.\<close>

definition keyword_text :: "env \<Rightarrow> string \<Rightarrow> string" where
  "keyword_text E text =
     (let stop_words = set (stopwords_english E)
      in lower (join_sp (filter (\<lambda>word. lower word \<notin> stop_words) (split text))))"

definition extract_keywords :: "env \<Rightarrow> string \<Rightarrow> int \<Rightarrow> string list" where
  "extract_keywords E text top_n =
     (if strip text = [] then []
      else let words = word_tokenize E (keyword_text E text);
               word_freq = Counter words
           in map fst (filter (\<lambda>(word, freq). isalpha word) (most_common top_n word_freq)))"

text \<open>
  What the keyword extractor needs of the word tokenizer for its output to be
  lower-case: the words of a text without capital letters have no capital letters.
  NLTK's tokenizer cuts the text into pieces and rewrites quotation marks; it never
  produces a letter that the text does not have.
\<close>

definition no_upper :: "string \<Rightarrow> bool" where
  "no_upper s = list_all (\<lambda>c. \<not> is_upper c) s"

definition case_preserving :: "(string \<Rightarrow> string list) \<Rightarrow> bool" where
  "case_preserving tokenize = (\<forall>s. no_upper s \<longrightarrow> list_all no_upper (tokenize s))"

subsection \<open>Paths and messages\<close>

text \<open>\<^verbatim>\<open>s.rfind(c)\<close>: the last index of \<open>c\<close>, or -1.\<close>

definition rfind :: "char \<Rightarrow> string \<Rightarrow> int" where
  "rfind c s =
     (if c \<in> set s then int (length s) - 1 - int (length (takeWhile (\<lambda>d. d \<noteq> c) (rev s)))
      else - 1)"

text \<open>\<^verbatim>\<open>posixpath.basename\<close>: what follows the last slash.\<close>

definition basename :: "string \<Rightarrow> string" where
  "basename p = drop (nat (rfind CHR ''/'' p + 1)) p"

text \<open>
  \<^verbatim>\<open>posixpath.splitext(p)[0]\<close>: the path up to the last dot of its last component,
  unless that component has nothing but dots before it.
\<close>

definition splitext_root :: "string \<Rightarrow> string" where
  "splitext_root p =
     (let sepIndex = rfind CHR ''/'' p;
          dotIndex = rfind CHR ''.'' p
      in if sepIndex < dotIndex \<and>
            filter (\<lambda>c. c \<noteq> CHR ''.'') (drop (nat (sepIndex + 1)) (take (nat dotIndex) p)) \<noteq> []
         then take (nat dotIndex) p
         else p)"

text \<open>\<^verbatim>\<open>posixpath.join(a, b)\<close>.\<close>

definition path_join :: "string \<Rightarrow> string \<Rightarrow> string" where
  "path_join a b =
     (if b \<noteq> [] \<and> hd b = CHR ''/'' then b
      else if a = [] \<or> last a = CHR ''/'' then a @ b
      else a @ CHR ''/'' # b)"

text \<open>\<^verbatim>\<open>str(n)\<close> for a natural number.\<close>

function str_of_nat :: "nat \<Rightarrow> string" where
  "str_of_nat n =
     (if n < 10 then [char_of (48 + n)]
      else str_of_nat (n div 10) @ [char_of (48 + n mod 10)])"
  by pat_completeness auto
termination
  by (relation "measure id") auto

declare str_of_nat.simps [simp del]

definition quoted :: "string \<Rightarrow> string" where
  "quoted s = CHR 0x27 # s @ [CHR 0x27]"

definition processing_message :: "string \<Rightarrow> nat \<Rightarrow> string" where
  "processing_message pdf_path num_pages =
     ''Processing '' @ quoted (basename pdf_path) @ '' ('' @ str_of_nat num_pages @ '' pages)''"

definition saved_message :: "string \<Rightarrow> string" where
  "saved_message pdf_path = ''Saved summary and keywords for '' @ quoted (basename pdf_path)"

definition error_message :: "string \<Rightarrow> string \<Rightarrow> string" where
  "error_message pdf_path m = ''Error processing '' @ quoted (basename pdf_path) @ '': '' @ m"

definition mongo_message :: "string \<Rightarrow> string" where
  "mongo_message m = ''Failed to save to MongoDB: '' @ m"

subsection \<open>Effects\<close>

text \<open>
  What the program does to the world, in the order it does it: a line on the
  Streamlit page (\<^verbatim>\<open>st.write\<close>, \<^verbatim>\<open>st.warning\<close>, \<^verbatim>\<open>st.error\<close>) or a document
  written to a collection of a database. A function with effects returns the events
  it caused and, when an exception leaves it, that exception.
\<close>

datatype event =
    St_write string
  | St_warning string
  | St_error string
  | Insert_one string string summary_record

fun is_error :: "event \<Rightarrow> bool" where
  "is_error (St_error m) = True"
| "is_error e = False"

text \<open>The documents written, in order.\<close>

fun inserted :: "event list \<Rightarrow> summary_record list" where
  "inserted [] = []"
| "inserted (Insert_one db c d # es) = d # inserted es"
| "inserted (e # es) = inserted es"

subsection \<open>extract_text_from_pdf\<close>

text \<open>The loop over the pages; \<^verbatim>\<open>page.extract_text() or ""\<close> turns \<^verbatim>\<open>None\<close> into
  the empty text.\<close>

fun pages_loop :: "string \<Rightarrow> (exn + string option) list \<Rightarrow> exn + string" where
  "pages_loop text [] = Inr text"
| "pages_loop text (page # pages) =
     (case page of
        Inl ex \<Rightarrow> Inl ex
      | Inr r \<Rightarrow> pages_loop (text @ (case r of None \<Rightarrow> [] | Some page_text \<Rightarrow> page_text)) pages)"

definition extract_text_from_pdf :: "env \<Rightarrow> string \<Rightarrow> exn + string \<times> nat" where
  "extract_text_from_pdf E pdf_path =
     (case pdf_open E pdf_path of
        Inl ex \<Rightarrow> Inl ex
      | Inr pages \<Rightarrow>
          (case pages_loop [] pages of
             Inl ex \<Rightarrow> Inl ex
           | Inr text \<Rightarrow> Inr (text, length pages)))"

subsection \<open>save_to_mongo\<close>

definition mongo_document :: "string \<Rightarrow> string \<Rightarrow> string list \<Rightarrow> summary_record" where
  "mongo_document pdf_path summ kws =
     \<lparr>pdf_name = splitext_root (basename pdf_path), summary = summ, keywords_list = kws\<rparr>"

text \<open>The whole body is inside \<^verbatim>\<open>try\<close>, and the handler is \<^verbatim>\<open>except Exception\<close>.\<close>

definition save_to_mongo ::
  "env \<Rightarrow> string \<Rightarrow> string \<Rightarrow> string list \<Rightarrow> string \<Rightarrow> string \<Rightarrow> event list \<times> exn option" where
  "save_to_mongo E pdf_path summ kws db_name collection_name =
     (let doc = mongo_document pdf_path summ kws
      in case mongo_insert_one E db_name collection_name doc of
           None \<Rightarrow> ([Insert_one db_name collection_name doc], None)
         | Some (Exception m) \<Rightarrow> ([St_error (mongo_message m)], None)
         | Some (BaseException m) \<Rightarrow> ([], Some (BaseException m)))"

subsection \<open>process_single_pdf\<close>

text \<open>The handler \<^verbatim>\<open>except Exception as e\<close> of \<^verbatim>\<open>process_single_pdf\<close>, entered after
  the events \<open>evs\<close>.\<close>

fun processing_handler :: "string \<Rightarrow> event list \<Rightarrow> exn \<Rightarrow> event list \<times> exn option" where
  "processing_handler pdf_path evs (Exception m) =
     (evs @ [St_error (error_message pdf_path m)], None)"
| "processing_handler pdf_path evs (BaseException m) = (evs, Some (BaseException m))"

definition process_single_pdf ::
  "env \<Rightarrow> string \<Rightarrow> string \<Rightarrow> string \<Rightarrow> event list \<times> exn option" where
  "process_single_pdf E pdf_path db_name collection_name =
     (case extract_text_from_pdf E pdf_path of
        Inl ex \<Rightarrow> processing_handler pdf_path [] ex
      | Inr (text, num_pages) \<Rightarrow>
          (let started = [St_write (processing_message pdf_path num_pages)];
               processed_text = remove_stopwords E text;
               summ = custom_summarization E processed_text 3;
               kws = extract_keywords E processed_text 5;
               (stored, raised) = save_to_mongo E pdf_path summ kws db_name collection_name
           in case raised of
                Some ex \<Rightarrow> processing_handler pdf_path (started @ stored) ex
              | None \<Rightarrow> (started @ stored @ [St_write (saved_message pdf_path)], None)))"

subsection \<open>run_pipeline\<close>

text \<open>
  The tasks run on the threads of a pool, so their events reach the page and the
  database interleaved. A schedule names, step by step, the task whose next event
  happens; when the schedule is used up the tasks finish one after the other, since
  the pool is joined before \<^verbatim>\<open>run_pipeline\<close> returns. Every order in which the
  pool can run the tasks is the interleaving of some schedule.
\<close>

fun interleave :: "nat list \<Rightarrow> 'a list list \<Rightarrow> 'a list" where
  "interleave [] tss = concat tss"
| "interleave (i # sched) tss =
     (if i < length tss
      then (case tss ! i of
              [] \<Rightarrow> interleave sched tss
            | e # es \<Rightarrow> e # interleave sched (tss[i := es]))
      else interleave sched tss)"

text \<open>\<^verbatim>\<open>future.result()\<close> on each future in turn raises the exception of the first task,
  in the order of submission, that an exception left.\<close>

fun first_raised :: "exn option list \<Rightarrow> exn option" where
  "first_raised [] = None"
| "first_raised (None # rs) = first_raised rs"
| "first_raised (Some ex # rs) = Some ex"

record batch_result =
  dispatched :: "string list"
  trace :: "event list"
  raised :: "exn option"

definition run_pipeline :: "env \<Rightarrow> nat list \<Rightarrow> string \<Rightarrow> string \<Rightarrow> string \<Rightarrow> batch_result" where
  "run_pipeline E sched folder_path db_name collection_name =
     (case os_listdir E folder_path of
        Inl ex \<Rightarrow> \<lparr>dispatched = [], trace = [], raised = Some ex\<rparr>
      | Inr names \<Rightarrow>
          (let pdf_files = filter (\<lambda>f. endswith f ''.pdf'') names
           in if pdf_files = []
              then \<lparr>dispatched = [],
                    trace = [St_warning ''No PDF files found in the folder.''],
                    raised = None\<rparr>
              else let pdf_paths = map (path_join folder_path) pdf_files;
                       futures = map (\<lambda>pdf_path. process_single_pdf E pdf_path db_name collection_name)
                                   pdf_paths
                   in \<lparr>dispatched = pdf_paths,
                       trace = interleave sched (map fst futures),
                       raised = first_raised (map snd futures)\<rparr>))"

subsection \<open>An instance of the collaborators\<close>

text \<open>
  For running the program on examples: tokenizers that give what NLTK gives on the
  texts used below (plain words, commas and sentences that end in a full stop), a few
  members of NLTK's English stopword list, a small file system and a MongoDB that
  accepts every write.
\<close>

definition is_sentence_end :: "char \<Rightarrow> bool" where
  "is_sentence_end c = (c = CHR ''.'' \<or> c = CHR ''!'' \<or> c = CHR ''?'')"

text \<open>A sentence ends with a full stop, ! or ? before white space or the end of the
  text; the white space between sentences belongs to none of them.\<close>

fun sent_loop :: "string \<Rightarrow> string \<Rightarrow> string list" where
  "sent_loop cur [] = (if cur = [] then [] else [cur])"
| "sent_loop cur (c # cs) =
     (if cur = [] \<and> is_space c then sent_loop [] cs
      else if is_sentence_end c \<and> (case cs of [] \<Rightarrow> True | d # ds \<Rightarrow> is_space d)
      then (cur @ [c]) # sent_loop [] cs
      else sent_loop (cur @ [c]) cs)"

definition demo_sent_tokenize :: "string \<Rightarrow> string list" where
  "demo_sent_tokenize s = sent_loop [] s"

definition is_punct :: "char \<Rightarrow> bool" where
  "is_punct c = (c \<in> set '',.;:!?'')"

text \<open>Words are separated by white space, and a punctuation mark is a word of its own.\<close>

definition demo_word_tokenize :: "string \<Rightarrow> string list" where
  "demo_word_tokenize s =
     split (concat (map (\<lambda>c. if is_punct c then [CHR '' '', c, CHR '' ''] else [c]) s))"

definition demo_stopwords :: "string list" where
  "demo_stopwords = [''a'', ''an'', ''and'', ''are'', ''is'', ''of'', ''the'', ''too'']"

definition demo_pdf_open :: "string \<Rightarrow> exn + (exn + string option) list" where
  "demo_pdf_open p =
     (if p = ''docs/a.pdf'' then Inr [Inr (Some ''The cats purr. ''), Inr None, Inr (Some ''Cats are pets.'')]
      else if p = ''docs/c.pdf'' then Inr [Inr (Some ''Dogs bark.'')]
      else if p = ''docs/b.pdf'' then Inl (Exception ''No /Root object!'')
      else Inl (Exception ''No such file''))"

definition demo_listdir :: "string \<Rightarrow> exn + string list" where
  "demo_listdir d =
     (if d = ''docs'' then Inr [''a.pdf'', ''b.pdf'', ''notes.txt'', ''c.pdf'']
      else if d = ''empty'' then Inr [''notes.txt'']
      else Inl (Exception ''No such file or directory''))"

definition demo_env :: env where
  "demo_env =
     \<lparr>sent_tokenize = demo_sent_tokenize,
      word_tokenize = demo_word_tokenize,
      stopwords_english = demo_stopwords,
      pdf_open = demo_pdf_open,
      os_listdir = demo_listdir,
      mongo_insert_one = (\<lambda>db c d. None)\<rparr>"

text \<open>The same, with a MongoDB that refuses the connection.\<close>

definition demo_env_down :: env where
  "demo_env_down =
     demo_env\<lparr>mongo_insert_one := (\<lambda>db c d. Some (Exception ''Connection refused''))\<rparr>"

text \<open>Two texts to run the summarizer on; in the second, the first two sentences
  have the same score.\<close>

definition demo_text :: string where
  "demo_text = ''Cats are great. Dogs are great too. Cats and dogs are pets.''"

definition demo_ties :: string where
  "demo_ties = ''Cats purr. Dogs bark. Birds sing loud.''"

section \<open>Properties\<close>

subsection \<open>Splitting and joining\<close>

lemma is_space_blank: "is_space CHR '' ''"
  by (simp add: is_space_def)

lemma split_loop_words:
  "list_all (\<lambda>c. \<not> is_space c) cur \<Longrightarrow> list_all is_word (split_loop cur s)"
  by (induction s arbitrary: cur) (auto simp: is_word_def)

lemma split_words: "list_all is_word (split s)"
  by (simp add: split_def split_loop_words)

lemma split_loop_append:
  "list_all (\<lambda>c. \<not> is_space c) w \<Longrightarrow> split_loop cur (w @ rest) = split_loop (cur @ w) rest"
  by (induction w arbitrary: cur) auto

text \<open>Joining words with blanks and splitting again gives the words back.\<close>

lemma split_join_sp: "list_all is_word ts \<Longrightarrow> split (join_sp ts) = ts"
proof (induction ts rule: join_sp.induct)
  case 1
  show ?case by (simp add: split_def)
next
  case (2 x)
  then have "split_loop [] (x @ []) = split_loop ([] @ x) []"
    by (intro split_loop_append) (simp add: is_word_def)
  with 2 show ?case by (simp add: split_def is_word_def)
next
  case (3 x y ys)
  then have "split_loop [] (x @ CHR '' '' # join_sp (y # ys)) =
             split_loop ([] @ x) (CHR '' '' # join_sp (y # ys))"
    by (intro split_loop_append) (simp add: is_word_def)
  with 3 show ?case by (simp add: split_def is_word_def is_space_blank)
qed

lemma split_join_filter: "split (join_sp (filter P (split t))) = filter P (split t)"
proof -
  have "list_all is_word (filter P (split t))"
    using split_words [of t] by (simp add: list_all_iff)
  then show ?thesis by (rule split_join_sp)
qed

subsection \<open>The stopword filter\<close>

text \<open>
  C5. For every text \<open>t\<close> (and every stopword list), filtering the stopwords out of
  an already filtered text changes nothing:
  \<^verbatim>\<open>remove_stopwords(remove_stopwords(t)) == remove_stopwords(t)\<close>.
\<close>

theorem remove_stopwords_idempotent:
  "remove_stopwords E (remove_stopwords E t) = remove_stopwords E t"
  by (simp add: remove_stopwords_def split_join_filter)

theorem remove_stopwords_idempotent_witness:
  "remove_stopwords demo_env (remove_stopwords demo_env ''The  cat is a Pet, the dog too.'')
     = remove_stopwords demo_env ''The  cat is a Pet, the dog too.'' \<and>
   remove_stopwords demo_env ''The  cat is a Pet, the dog too.'' = ''cat Pet, dog too.''"
proof -
  have "remove_stopwords demo_env ''The  cat is a Pet, the dog too.'' = ''cat Pet, dog too.''"
    by code_simp
  with remove_stopwords_idempotent [of demo_env "''The  cat is a Pet, the dog too.''"]
  show ?thesis by (rule conjI)
qed

subsection \<open>The frequency table\<close>

lemma counter_get_add:
  "counter_get (counter_add c w) v = counter_get c v + (if v = w then 1 else 0)"
  by (induction c w rule: counter_add.induct) (auto simp: counter_get_def)

lemma counter_get_foldl:
  "counter_get (foldl counter_add c ws) v = counter_get c v + int (count_list ws v)"
  by (induction ws arbitrary: c) (auto simp: counter_get_add)

text \<open>Looking a word up in the table gives the number of its occurrences.\<close>

lemma counter_get_Counter: "counter_get (Counter ws) = (\<lambda>v. int (count_list ws v))"
  by (rule ext, simp add: Counter_def counter_get_foldl, simp add: counter_get_def)

lemma count_list_pos: "w \<in> set xs \<Longrightarrow> 0 < count_list xs w"
  using count_list_0_iff [of xs w] by auto

subsection \<open>Blank texts, slices and the descending sort\<close>

lemma strip_empty_iff: "strip s = [] \<longleftrightarrow> list_all is_space s"
proof
  assume "strip s = []"
  then have all: "\<forall>c\<in>set (dropWhile is_space s). is_space c"
    by (simp add: strip_def)
  have "dropWhile is_space s = []"
  proof (rule ccontr)
    assume ne: "dropWhile is_space s \<noteq> []"
    then have "\<not> is_space (hd (dropWhile is_space s))" by (rule hd_dropWhile)
    moreover have "hd (dropWhile is_space s) \<in> set (dropWhile is_space s)"
      using ne by (rule hd_in_set)
    ultimately show False using all by blast
  qed
  then show "list_all is_space s"
    by (simp add: list_all_iff)
next
  assume "list_all is_space s"
  then show "strip s = []"
    by (auto simp: strip_def list_all_iff dest: set_dropWhileD)
qed

lemma slice_to_take: "\<exists>n. slice_to k xs = take n xs"
  by (auto simp: slice_to_def)

lemma filter_take_prefix: "prefix (filter P (take n xs)) (filter P xs)"
proof -
  have "filter P xs = filter P (take n xs) @ filter P (drop n xs)"
    by (metis append_take_drop_id filter_append)
  then show ?thesis by (simp add: prefix_def)
qed

lemma sorted_reverse_stable:
  "filter (\<lambda>x. key x = v) (sorted_reverse key xs) = filter (\<lambda>x. key x = v) xs"
  using sort_key_stable [of "\<lambda>x. - key x" "- v" xs] by (simp add: sorted_reverse_def)

lemma sorted_reverse_descending:
  "sorted_wrt (\<lambda>a b. key b \<le> key a) (sorted_reverse key xs)"
  using sorted_sort_key [of "\<lambda>x. - key x" xs] by (simp add: sorted_reverse_def sorted_map)

lemma mset_sorted_reverse: "mset (sorted_reverse key xs) = mset xs"
  by (simp add: sorted_reverse_def)

subsection \<open>The summarizer\<close>

text \<open>
  In \<open>demo_text\<close> the full stop is a word of the table like any other, with
  frequency 3, and a word of the sentence \<^verbatim>\<open>Cats and dogs are pets.\<close>: the score of the
  sentence is 12, of which the alphabetic words make 9 and the full stop 3.
\<close>

theorem punctuation_counts_in_score:
  "''.'' \<in> set (word_tokenize demo_env (lower ''Cats and dogs are pets.'')) \<and>
   \<not> isalpha ''.'' \<and>
   counter_get (Counter (word_tokenize demo_env (lower demo_text))) ''.'' = 3 \<and>
   sentence_score demo_env demo_text ''Cats and dogs are pets.'' = 12 \<and>
   (\<Sum>word\<leftarrow>filter isalpha (word_tokenize demo_env (lower ''Cats and dogs are pets.'')).
       counter_get (Counter (word_tokenize demo_env (lower demo_text))) word) = 9"
  by code_simp

text \<open>
  C2, as the program has it. For every text, the score by which
  \<^verbatim>\<open>custom_summarization\<close> ranks a sentence is the sum, over all the words of the
  lower-cased sentence as \<^verbatim>\<open>word_tokenize\<close> gives them, punctuation marks included, of
  the number of times the word occurs among the words of the lower-cased text. The
  table holds exactly these numbers: every word of the text, a punctuation mark too,
  adds its positive frequency, and only a word that is not among the words of the
  text adds 0.
\<close>

theorem sentence_score_counts_every_token:
  "sentence_score E text sentence =
     (\<Sum>word\<leftarrow>word_tokenize E (lower sentence).
         int (count_list (word_tokenize E (lower text)) word)) \<and>
   (\<forall>word. counter_get (Counter (word_tokenize E (lower text))) word =
      int (count_list (word_tokenize E (lower text)) word)) \<and>
   (\<forall>word. word \<in> set (word_tokenize E (lower text)) \<longrightarrow>
      0 < counter_get (Counter (word_tokenize E (lower text))) word) \<and>
   (\<forall>word. word \<notin> set (word_tokenize E (lower text)) \<longrightarrow>
      counter_get (Counter (word_tokenize E (lower text))) word = 0)"
  by (simp add: sentence_score_def counter_get_Counter count_list_pos)

theorem sentence_score_counts_every_token_witness:
  "sentence_score demo_env demo_text ''Zebras are pets.'' =
     (\<Sum>word\<leftarrow>word_tokenize demo_env (lower ''Zebras are pets.'').
         int (count_list (word_tokenize demo_env (lower demo_text)) word)) \<and>
   (\<Sum>word\<leftarrow>word_tokenize demo_env (lower ''Zebras are pets.'').
         int (count_list (word_tokenize demo_env (lower demo_text)) word)) = 7 \<and>
   ''zebras'' \<in> set (word_tokenize demo_env (lower ''Zebras are pets.'')) \<and>
   ''zebras'' \<notin> set (word_tokenize demo_env (lower demo_text)) \<and>
   counter_get (Counter (word_tokenize demo_env (lower demo_text))) ''zebras'' = 0 \<and>
   ''.'' \<in> set (word_tokenize demo_env (lower ''Zebras are pets.'')) \<and>
   ''.'' \<in> set (word_tokenize demo_env (lower demo_text)) \<and>
   0 < counter_get (Counter (word_tokenize demo_env (lower demo_text))) ''.''"
proof -
  note inst = sentence_score_counts_every_token [of demo_env demo_text "''Zebras are pets.''"]
  have total: "(\<Sum>word\<leftarrow>word_tokenize demo_env (lower ''Zebras are pets.'').
         int (count_list (word_tokenize demo_env (lower demo_text)) word)) = 7"
    by code_simp
  have z1: "''zebras'' \<in> set (word_tokenize demo_env (lower ''Zebras are pets.''))"
    by code_simp
  have z2: "''zebras'' \<notin> set (word_tokenize demo_env (lower demo_text))"
    by code_simp
  have d1: "''.'' \<in> set (word_tokenize demo_env (lower ''Zebras are pets.''))"
    by code_simp
  have d2: "''.'' \<in> set (word_tokenize demo_env (lower demo_text))"
    by code_simp
  note score = inst [THEN conjunct1]
  note present = inst [THEN conjunct2, THEN conjunct2, THEN conjunct1, THEN spec, THEN mp, OF d2]
  note absent = inst [THEN conjunct2, THEN conjunct2, THEN conjunct2, THEN spec, THEN mp, OF z2]
  from score total z1 z2 absent d1 d2 present show ?thesis by (intro conjI)
qed

lemma summary_sentences_length: "0 \<le> k \<Longrightarrow> int (length (summary_sentences E t k)) \<le> k"
  by (simp add: summary_sentences_def slice_to_def)

lemma summary_sentences_mset: "mset (summary_sentences E t k) \<subseteq># mset (sent_tokenize E t)"
proof -
  obtain n where n: "summary_sentences E t k = take n (ranked_sentences E t)"
    using slice_to_take [of k "ranked_sentences E t"] by (auto simp: summary_sentences_def)
  have "mset (take n (ranked_sentences E t)) \<subseteq># mset (ranked_sentences E t)"
    by (metis append_take_drop_id mset_append mset_subset_eq_add_left)
  then show ?thesis by (simp add: n ranked_sentences_def mset_sorted_reverse)
qed

lemma summary_sentences_all:
  "int (length (sent_tokenize E t)) \<le> k \<Longrightarrow> summary_sentences E t k = ranked_sentences E t"
  by (simp add: summary_sentences_def slice_to_def ranked_sentences_def sorted_reverse_def)

text \<open>
  C6. For every text \<open>t\<close> and count \<open>k\<close> (\<open>0 \<le> k\<close>): \<^verbatim>\<open>custom_summarization(t, k)\<close> is
  the empty string when \<open>t\<close> is empty or white space only; otherwise it is the join
  of the sentences selected, which are at most \<open>k\<close>, each of them a sentence of \<open>t\<close>
  as \<^verbatim>\<open>sent_tokenize\<close> gave it (none more often than it occurs in \<open>t\<close>); and when
  \<open>k\<close> is at least the number of sentences, the selection is all the sentences of \<open>t\<close>
  in ranked order, that is rearranged with scores descending.
\<close>

theorem custom_summarization_sentences:
  assumes "0 \<le> k"
  shows "(list_all is_space t \<longrightarrow> custom_summarization E t k = []) \<and>
         (\<not> list_all is_space t \<longrightarrow>
            custom_summarization E t k = join_sp (summary_sentences E t k)) \<and>
         int (length (summary_sentences E t k)) \<le> k \<and>
         mset (summary_sentences E t k) \<subseteq># mset (sent_tokenize E t) \<and>
         (int (length (sent_tokenize E t)) \<le> k \<longrightarrow>
            summary_sentences E t k = ranked_sentences E t) \<and>
         mset (ranked_sentences E t) = mset (sent_tokenize E t) \<and>
         sorted_wrt (\<lambda>a b. sentence_score E t b \<le> sentence_score E t a) (ranked_sentences E t)"
proof -
  have "list_all is_space t \<longrightarrow> custom_summarization E t k = []"
    by (simp add: custom_summarization_def strip_empty_iff)
  moreover have "\<not> list_all is_space t \<longrightarrow>
      custom_summarization E t k = join_sp (summary_sentences E t k)"
    by (simp add: custom_summarization_def strip_empty_iff)
  moreover have "mset (ranked_sentences E t) = mset (sent_tokenize E t)"
    by (simp add: ranked_sentences_def mset_sorted_reverse)
  moreover have "sorted_wrt (\<lambda>a b. sentence_score E t b \<le> sentence_score E t a)
      (ranked_sentences E t)"
    by (simp add: ranked_sentences_def sorted_reverse_descending)
  ultimately show ?thesis
    using assms summary_sentences_length summary_sentences_mset summary_sentences_all
    by blast
qed

theorem custom_summarization_sentences_witness:
  "(0::int) \<le> 1 \<and> \<not> list_all is_space demo_text \<and>
   custom_summarization demo_env demo_text 1 = join_sp (summary_sentences demo_env demo_text 1) \<and>
   int (length (summary_sentences demo_env demo_text 1)) \<le> 1 \<and>
   custom_summarization demo_env demo_text 1 = ''Cats and dogs are pets.''"
proof -
  have k: "(0::int) \<le> 1" by simp
  have t: "\<not> list_all is_space demo_text" by code_simp
  have v: "custom_summarization demo_env demo_text 1 = ''Cats and dogs are pets.''"
    by code_simp
  from custom_summarization_sentences [OF k, of demo_text demo_env] k t v
  show ?thesis by blast
qed

text \<open>
  C7. For every text, the sentences of one score that \<^verbatim>\<open>custom_summarization\<close>
  selects are, in the order in which it puts them out, an initial part of the
  sentences of that score in the order of the text: sentences with equal scores keep
  their original relative order.
\<close>

theorem ties_keep_order:
  "prefix (filter (\<lambda>s. sentence_score E text s = v) (summary_sentences E text k))
          (filter (\<lambda>s. sentence_score E text s = v) (sent_tokenize E text))"
proof -
  obtain n where "summary_sentences E text k = take n (ranked_sentences E text)"
    using slice_to_take [of k "ranked_sentences E text"] by (auto simp: summary_sentences_def)
  then have "prefix (filter (\<lambda>s. sentence_score E text s = v) (summary_sentences E text k))
     (filter (\<lambda>s. sentence_score E text s = v) (ranked_sentences E text))"
    by (simp add: filter_take_prefix)
  then show ?thesis
    by (simp add: ranked_sentences_def sorted_reverse_stable)
qed

theorem ties_keep_order_witness:
  "prefix (filter (\<lambda>s. sentence_score demo_env demo_ties s = 5)
             (summary_sentences demo_env demo_ties 3))
          (filter (\<lambda>s. sentence_score demo_env demo_ties s = 5)
             (sent_tokenize demo_env demo_ties)) \<and>
   summary_sentences demo_env demo_ties 3 =
     [''Birds sing loud.'', ''Cats purr.'', ''Dogs bark.''] \<and>
   filter (\<lambda>s. sentence_score demo_env demo_ties s = 5) (sent_tokenize demo_env demo_ties)
     = [''Cats purr.'', ''Dogs bark.'']"
proof -
  have a: "summary_sentences demo_env demo_ties 3 =
      [''Birds sing loud.'', ''Cats purr.'', ''Dogs bark.'']"
    by code_simp
  have b: "filter (\<lambda>s. sentence_score demo_env demo_ties s = 5)
      (sent_tokenize demo_env demo_ties) = [''Cats purr.'', ''Dogs bark.'']"
    by code_simp
  from ties_keep_order [of demo_env demo_ties 5 3] a b show ?thesis by (intro conjI)
qed

subsection \<open>The keyword extractor\<close>

lemma lower_char_not_upper: "\<not> is_upper (lower_char c)"
proof (cases "is_upper c")
  case True
  then have "(of_char c :: nat) + 32 < 256" and "97 \<le> (of_char c :: nat) + 32"
    by (simp_all add: is_upper_def Let_def)
  then have "(of_char (char_of ((of_char c :: nat) + 32)) :: nat) = of_char c + 32"
    by simp
  with True show ?thesis by (simp add: lower_char_def is_upper_def Let_def)
next
  case False
  then show ?thesis by (simp add: lower_char_def)
qed

lemma no_upper_lower: "no_upper (lower s)"
  by (simp add: no_upper_def lower_def list_all_iff lower_char_not_upper)

lemma lower_no_upper: "no_upper w \<Longrightarrow> lower w = w"
  by (induction w) (auto simp: no_upper_def lower_def lower_char_def)

lemma keys_counter_add: "fst ` set (counter_add c w) = insert w (fst ` set c)"
  by (induction c w rule: counter_add.induct) auto

lemma keys_foldl: "fst ` set (foldl counter_add c ws) = fst ` set c \<union> set ws"
  by (induction ws arbitrary: c) (auto simp: keys_counter_add)

lemma keys_Counter: "fst ` set (Counter ws) = set ws"
  by (simp add: Counter_def keys_foldl)

lemma distinct_counter_add:
  "distinct (map fst c) \<Longrightarrow> distinct (map fst (counter_add c w))"
proof (induction c w rule: counter_add.induct)
  case (1 w)
  then show ?case by simp
next
  case (2 k n c w)
  then show ?case using keys_counter_add [of c w] by (auto simp: image_iff)
qed

lemma distinct_foldl: "distinct (map fst c) \<Longrightarrow> distinct (map fst (foldl counter_add c ws))"
  by (induction ws arbitrary: c) (auto simp: distinct_counter_add)

text \<open>Every entry of the table holds the number of occurrences of its word.\<close>

lemma Counter_entry:
  assumes "(w, n) \<in> set (Counter ws)"
  shows "n = int (count_list ws w)"
proof -
  have "distinct (map fst (Counter ws))" by (simp add: Counter_def distinct_foldl)
  with assms have "map_of (Counter ws) w = Some n" by simp
  then have "counter_get (Counter ws) w = n" by (simp add: counter_get_def)
  then show ?thesis by (simp add: counter_get_Counter)
qed

lemma set_most_common: "set (most_common n c) \<subseteq> set c"
  by (auto simp: most_common_def sorted_reverse_def dest: in_set_takeD)

lemma most_common_length: "0 \<le> n \<Longrightarrow> int (length (most_common n c)) \<le> n"
  by (auto simp: most_common_def)

lemma most_common_descending: "sorted_wrt (\<lambda>a b. snd b \<le> snd a) (most_common n c)"
  by (simp add: most_common_def sorted_reverse_descending)

lemma extract_keywords_subset:
  "set (extract_keywords E t n) \<subseteq> set (word_tokenize E (keyword_text E t))"
proof (cases "strip t = []")
  case True
  then show ?thesis by (simp add: extract_keywords_def)
next
  case False
  have "set (extract_keywords E t n)
      \<subseteq> fst ` set (most_common n (Counter (word_tokenize E (keyword_text E t))))"
    using False by (auto simp: extract_keywords_def)
  also have "\<dots> \<subseteq> fst ` set (Counter (word_tokenize E (keyword_text E t)))"
    using set_most_common by (intro image_mono)
  finally show ?thesis by (simp add: keys_Counter)
qed

text \<open>
  What holds of the keyword list on every text: at most \<open>top_n\<close> words (for
  \<open>0 \<le> top_n\<close>), every one alphabetic, in the order of non-increasing frequency among
  the words of the filtered, lower-cased text.
\<close>

lemma extract_keywords_length:
  assumes "0 \<le> n"
  shows "int (length (extract_keywords E t n)) \<le> n"
proof (cases "strip t = []")
  case True
  with assms show ?thesis by (simp add: extract_keywords_def)
next
  case False
  let ?c = "Counter (word_tokenize E (keyword_text E t))"
  have "length (extract_keywords E t n) \<le> length (most_common n ?c)"
    using False by (simp add: extract_keywords_def)
  with most_common_length [OF assms, of ?c] show ?thesis by linarith
qed

lemma extract_keywords_isalpha: "list_all isalpha (extract_keywords E t n)"
  by (auto simp: extract_keywords_def list_all_iff)

lemma extract_keywords_descending:
  "sorted_wrt (\<lambda>a b. count_list (word_tokenize E (keyword_text E t)) b
                     \<le> count_list (word_tokenize E (keyword_text E t)) a)
     (extract_keywords E t n)"
proof (cases "strip t = []")
  case True
  then show ?thesis by (simp add: extract_keywords_def)
next
  case False
  let ?ws = "word_tokenize E (keyword_text E t)"
  let ?sel = "filter (\<lambda>(word, freq). isalpha word) (most_common n (Counter ?ws))"
  have "sorted_wrt (\<lambda>a b. snd b \<le> snd a) ?sel"
    by (intro sorted_wrt_filter most_common_descending)
  moreover have "\<And>e. e \<in> set ?sel \<Longrightarrow> snd e = int (count_list ?ws (fst e))"
  proof -
    fix e assume "e \<in> set ?sel"
    then have "e \<in> set (Counter ?ws)" using set_most_common by fastforce
    then show "snd e = int (count_list ?ws (fst e))"
      using Counter_entry [of "fst e" "snd e" ?ws] by simp
  qed
  ultimately have "sorted_wrt (\<lambda>a b. count_list ?ws (fst b) \<le> count_list ?ws (fst a)) ?sel"
    by (rule_tac sorted_wrt_mono_rel [where P = "\<lambda>a b. snd b \<le> snd a"]) auto
  then show ?thesis using False by (simp add: extract_keywords_def sorted_wrt_map)
qed

text \<open>
  C1. Of the four things expected of \<^verbatim>\<open>extract_keywords(t, n)\<close> on a non-empty text
  (at most \<open>n\<close> words, all alphabetic, none a stopword, in the order of non-increasing
  frequency), three are the lemmas above; the third fails. The stopwords are dropped
  from the words that \<^verbatim>\<open>split()\<close> cuts at white space, and the frequencies are
  counted on the words of \<^verbatim>\<open>word_tokenize\<close>, which cuts punctuation off: in
  \<^verbatim>\<open>"the, the, cat"\<close> the first two words are \<^verbatim>\<open>"the,"\<close>, which is no stopword, and
  the tokenizer then makes \<^verbatim>\<open>"the"\<close> of each. On this text the function returns the
  stopword \<^verbatim>\<open>"the"\<close> as its first keyword.
\<close>

theorem extract_keywords_stopword:
  "extract_keywords demo_env ''the, the, cat'' 5 = [''the'', ''cat''] \<and>
   lower ''the'' \<in> set (stopwords_english demo_env)"
  by code_simp

text \<open>
  C9. For every text, whatever the case of its letters, every keyword that
  \<^verbatim>\<open>extract_keywords\<close> returns is its own lower-case form, provided the word
  tokenizer brings no capital letter into a text that has none.
\<close>

theorem extract_keywords_lower:
  assumes "case_preserving (word_tokenize E)"
  shows "list_all (\<lambda>w. lower w = w) (extract_keywords E t n)"
proof -
  have "no_upper (keyword_text E t)"
    by (simp add: keyword_text_def no_upper_lower)
  with assms have "list_all no_upper (word_tokenize E (keyword_text E t))"
    by (simp add: case_preserving_def)
  with extract_keywords_subset [of E t n]
  have "list_all no_upper (extract_keywords E t n)"
    by (auto simp: list_all_iff)
  then show ?thesis by (auto simp: list_all_iff lower_no_upper)
qed

lemma split_loop_chars:
  "w \<in> set (split_loop cur s) \<Longrightarrow> c \<in> set w \<Longrightarrow> c \<in> set cur \<or> c \<in> set s"
proof (induction s arbitrary: cur)
  case Nil
  then show ?case by (simp split: if_splits)
next
  case (Cons a s)
  show ?case
  proof (cases "is_space a")
    case True
    with Cons.prems have "w = cur \<or> w \<in> set (split_loop [] s)"
      by (auto split: if_splits)
    with Cons.IH [of "[]"] Cons.prems(2) show ?thesis by auto
  next
    case False
    with Cons.prems have "w \<in> set (split_loop (cur @ [a]) s)" by simp
    with Cons.IH [of "cur @ [a]"] Cons.prems(2) show ?thesis by auto
  qed
qed

lemma split_chars: "w \<in> set (split s) \<Longrightarrow> set w \<subseteq> set s"
  using split_loop_chars [of w "[]" s] by (auto simp: split_def)

lemma demo_word_tokenize_case: "case_preserving demo_word_tokenize"
proof -
  have blank: "\<not> is_upper CHR '' ''" by (simp add: is_upper_def)
  { fix s w c
    assume s: "no_upper s" and w: "w \<in> set (demo_word_tokenize s)" and c: "c \<in> set w"
    from w c
    have "c \<in> set (concat (map (\<lambda>c. if is_punct c then [CHR '' '', c, CHR '' ''] else [c]) s))"
      using split_chars unfolding demo_word_tokenize_def by blast
    then have "c = CHR '' '' \<or> c \<in> set s" by (auto split: if_splits)
    with s blank have "\<not> is_upper c" by (auto simp: no_upper_def list_all_iff) }
  then show ?thesis
    unfolding case_preserving_def no_upper_def list_all_iff by blast
qed

theorem extract_keywords_lower_witness:
  "case_preserving (word_tokenize demo_env) \<and>
   list_all (\<lambda>w. lower w = w) (extract_keywords demo_env ''The Cat, the DOG and the cat'' 5) \<and>
   extract_keywords demo_env ''The Cat, the DOG and the cat'' 5 = [''cat'', ''dog'']"
proof -
  have a: "case_preserving (word_tokenize demo_env)"
    by (simp add: demo_env_def demo_word_tokenize_case)
  have b: "extract_keywords demo_env ''The Cat, the DOG and the cat'' 5 = [''cat'', ''dog'']"
    by code_simp
  from a extract_keywords_lower [OF a, of "''The Cat, the DOG and the cat''" 5] b
  show ?thesis by (intro conjI)
qed

subsection \<open>Storing the record\<close>

text \<open>
  C10. Whatever the arguments, when the MongoDB client fails with an exception (the
  server cannot be reached, the write is refused, or any other \<^verbatim>\<open>Exception\<close>),
  \<^verbatim>\<open>save_to_mongo\<close> returns normally: no exception leaves it, nothing is written,
  and the failure is one \<^verbatim>\<open>st.error\<close> line.
\<close>

theorem save_to_mongo_swallows:
  assumes "mongo_insert_one E db coll (mongo_document p s k) = Some (Exception m)"
  shows "save_to_mongo E p s k db coll = ([St_error (mongo_message m)], None)"
  using assms by (simp add: save_to_mongo_def)

theorem save_to_mongo_swallows_witness:
  "mongo_insert_one demo_env_down ''db'' ''summaries'' (mongo_document ''docs/a.pdf'' ''Cats purr.'' [''cats''])
     = Some (Exception ''Connection refused'') \<and>
   save_to_mongo demo_env_down ''docs/a.pdf'' ''Cats purr.'' [''cats''] ''db'' ''summaries''
     = ([St_error (mongo_message ''Connection refused'')], None)"
proof -
  have a: "mongo_insert_one demo_env_down ''db'' ''summaries''
      (mongo_document ''docs/a.pdf'' ''Cats purr.'' [''cats'']) = Some (Exception ''Connection refused'')"
    by (simp add: demo_env_down_def demo_env_def)
  from a save_to_mongo_swallows [OF a] show ?thesis by (rule conjI)
qed

text \<open>
  C3. The line \<^verbatim>\<open>Saved summary and keywords for ...\<close> should be written only after the
  record was stored, and a store that cannot be reached or refuses the write should
  end the task as failed. With a MongoDB that refuses the connection, the task for
  \<^verbatim>\<open>docs/a.pdf\<close> reports the failed write (\<^verbatim>\<open>save_to_mongo\<close> has caught the exception
  and returned), writes no record, and then still announces that it saved the summary
  and the keywords. On the other failure path, \<^verbatim>\<open>docs/b.pdf\<close> whose extraction raises,
  the task reports the error and announces nothing.
\<close>

theorem saved_after_failed_store:
  "process_single_pdf demo_env_down ''docs/a.pdf'' ''db'' ''summaries'' =
     ([St_write (processing_message ''docs/a.pdf'' 3),
       St_error (mongo_message ''Connection refused''),
       St_write (saved_message ''docs/a.pdf'')], None) \<and>
   inserted (fst (process_single_pdf demo_env_down ''docs/a.pdf'' ''db'' ''summaries'')) = [] \<and>
   process_single_pdf demo_env_down ''docs/b.pdf'' ''db'' ''summaries'' =
     ([St_error (error_message ''docs/b.pdf'' ''No /Root object!'')], None)"
  by code_simp

subsection \<open>Interleaved tasks\<close>

lemma inserted_append: "inserted (xs @ ys) = inserted xs @ inserted ys"
  by (induction xs rule: inserted.induct) auto

lemma concat_nth_split:
  assumes "i < length tss" and "tss ! i = e # es"
  shows "concat tss = concat (take i tss) @ e # es @ concat (drop (Suc i) tss)"
    and "concat (tss[i := es]) = concat (take i tss) @ es @ concat (drop (Suc i) tss)"
proof -
  from assms have "tss = take i tss @ (e # es) # drop (Suc i) tss"
    by (metis id_take_nth_drop)
  then have "concat tss = concat (take i tss @ (e # es) # drop (Suc i) tss)" by simp
  then show "concat tss = concat (take i tss) @ e # es @ concat (drop (Suc i) tss)" by simp
  from assms(1) have "tss[i := es] = take i tss @ es # drop (Suc i) tss"
    by (rule upd_conv_take_nth_drop)
  then show "concat (tss[i := es]) = concat (take i tss) @ es @ concat (drop (Suc i) tss)"
    by simp
qed

lemma mset_interleave_hom:
  assumes hom: "\<And>xs ys. h (xs @ ys) = h xs @ h ys"
  shows "mset (h (interleave sched tss)) = mset (h (concat tss))"
proof (induction sched arbitrary: tss)
  case Nil
  show ?case by simp
next
  case (Cons i sched)
  show ?case
  proof (cases "i < length tss")
    case False
    with Cons.IH [of tss] show ?thesis by simp
  next
    case True
    show ?thesis
    proof (cases "tss ! i")
      case Nil
      with True Cons.IH [of tss] show ?thesis by simp
    next
      case (Cons e es)
      have "h (e # interleave sched (tss[i := es])) = h [e] @ h (interleave sched (tss[i := es]))"
        using hom [of "[e]" "interleave sched (tss[i := es])"] by simp
      then have "mset (h (interleave (i # sched) tss))
          = mset (h [e]) + mset (h (concat (tss[i := es])))"
        using True Cons Cons.IH [of "tss[i := es]"] by simp
      also have "\<dots> = mset (h (concat tss))"
      proof -
        let ?P = "concat (take i tss)" and ?S = "concat (drop (Suc i) tss)"
        from hom [of ?P "e # es @ ?S"] hom [of "[e]" "es @ ?S"] hom [of es ?S]
        have whole: "h (?P @ e # es @ ?S) = h ?P @ h [e] @ h es @ h ?S" by simp
        from hom [of ?P "es @ ?S"] hom [of es ?S]
        have rest: "h (?P @ es @ ?S) = h ?P @ h es @ h ?S" by simp
        show ?thesis
          by (simp only: concat_nth_split [OF True Cons] whole rest mset_append ac_simps)
      qed
      finally show ?thesis .
    qed
  qed
qed

lemma mset_interleave: "mset (interleave sched tss) = mset (concat tss)"
  using mset_interleave_hom [of "\<lambda>xs. xs" sched tss] by simp

lemma mset_inserted_interleave:
  "mset (inserted (interleave sched tss)) = mset (inserted (concat tss))"
  by (rule mset_interleave_hom) (rule inserted_append)

lemma mset_errors_interleave:
  "mset (filter is_error (interleave sched tss)) = mset (filter is_error (concat tss))"
  by (rule mset_interleave_hom) simp

subsection \<open>The batch\<close>

text \<open>
  C8. For every folder that exists and holds no name ending in \<^verbatim>\<open>.pdf\<close>,
  \<^verbatim>\<open>run_pipeline\<close> returns without an exception, submits no task, writes no record,
  and its only event is the one warning \<^verbatim>\<open>No PDF files found in the folder.\<close>
\<close>

theorem run_pipeline_no_documents:
  assumes "os_listdir E folder = Inr names"
    and "list_all (\<lambda>f. \<not> endswith f ''.pdf'') names"
  shows "run_pipeline E sched folder db coll =
           \<lparr>dispatched = [], trace = [St_warning ''No PDF files found in the folder.''],
            raised = None\<rparr> \<and>
         inserted (trace (run_pipeline E sched folder db coll)) = []"
proof -
  from assms(2) have "filter (\<lambda>f. endswith f ''.pdf'') names = []"
    by (simp add: list_all_iff filter_empty_conv)
  with assms(1) show ?thesis by (simp add: run_pipeline_def)
qed

theorem run_pipeline_no_documents_witness:
  "os_listdir demo_env ''empty'' = Inr [''notes.txt''] \<and>
   list_all (\<lambda>f. \<not> endswith f ''.pdf'') [''notes.txt''] \<and>
   run_pipeline demo_env [0, 1] ''empty'' ''db'' ''summaries'' =
     \<lparr>dispatched = [], trace = [St_warning ''No PDF files found in the folder.''],
      raised = None\<rparr> \<and>
   inserted (trace (run_pipeline demo_env [0, 1] ''empty'' ''db'' ''summaries'')) = []"
proof -
  have a: "os_listdir demo_env ''empty'' = Inr [''notes.txt'']"
    by (simp add: demo_env_def demo_listdir_def)
  have b: "list_all (\<lambda>f. \<not> endswith f ''.pdf'') [''notes.txt'']"
    by (simp add: endswith_def)
  note r = run_pipeline_no_documents [OF a b, of "[0, 1]" "''db''" "''summaries''"]
  from a b r [THEN conjunct1] r [THEN conjunct2] show ?thesis by (intro conjI)
qed

lemma process_single_pdf_extraction_error:
  "extract_text_from_pdf E p = Inl (Exception m) \<Longrightarrow>
   process_single_pdf E p db coll = ([St_error (error_message p m)], None)"
  by (simp add: process_single_pdf_def)

lemma process_single_pdf_success:
  assumes "extract_text_from_pdf E p = Inr (content, n)"
    and "\<forall>d. mongo_insert_one E db coll d = None"
  shows "process_single_pdf E p db coll =
     ([St_write (processing_message p n),
       Insert_one db coll (mongo_document p
          (custom_summarization E (remove_stopwords E content) 3)
          (extract_keywords E (remove_stopwords E content) 5)),
       St_write (saved_message p)], None)"
  using assms by (simp add: process_single_pdf_def save_to_mongo_def Let_def)

text \<open>
  C4. For every folder whose PDF files are \<open>A\<close>, \<open>B\<close> and \<open>C\<close>, where extracting \<open>B\<close>
  raises an exception while \<open>A\<close> and \<open>C\<close> can be read and MongoDB accepts the writes,
  and for every schedule of the pool: \<^verbatim>\<open>run_pipeline\<close> returns without an exception,
  the records written are exactly those of \<open>A\<close> and of \<open>C\<close>, exactly one error is
  reported and it is the one for \<open>B\<close>, and the events of the batch are those that the
  three tasks produce each on its own.
\<close>

theorem batch_isolation:
  assumes "os_listdir E folder = Inr names"
    and "filter (\<lambda>f. endswith f ''.pdf'') names = [A, B, C]"
    and "extract_text_from_pdf E (path_join folder A) = Inr (ta, na)"
    and "extract_text_from_pdf E (path_join folder B) = Inl (Exception m)"
    and "extract_text_from_pdf E (path_join folder C) = Inr (tc, nc)"
    and "\<forall>d. mongo_insert_one E db coll d = None"
  shows "raised (run_pipeline E sched folder db coll) = None \<and>
         dispatched (run_pipeline E sched folder db coll) =
           [path_join folder A, path_join folder B, path_join folder C] \<and>
         mset (inserted (trace (run_pipeline E sched folder db coll))) =
           {#mongo_document (path_join folder A)
               (custom_summarization E (remove_stopwords E ta) 3)
               (extract_keywords E (remove_stopwords E ta) 5),
             mongo_document (path_join folder C)
               (custom_summarization E (remove_stopwords E tc) 3)
               (extract_keywords E (remove_stopwords E tc) 5)#} \<and>
         filter is_error (trace (run_pipeline E sched folder db coll)) =
           [St_error (error_message (path_join folder B) m)] \<and>
         mset (trace (run_pipeline E sched folder db coll)) =
           mset (fst (process_single_pdf E (path_join folder A) db coll)) +
           mset (fst (process_single_pdf E (path_join folder B) db coll)) +
           mset (fst (process_single_pdf E (path_join folder C) db coll))"
proof -
  let ?r = "run_pipeline E sched folder db coll"
  let ?pa = "process_single_pdf E (path_join folder A) db coll"
  let ?pb = "process_single_pdf E (path_join folder B) db coll"
  let ?pc = "process_single_pdf E (path_join folder C) db coll"
  note a = process_single_pdf_success [OF assms(3) assms(6)]
  note b = process_single_pdf_extraction_error [OF assms(4), of db coll]
  note c = process_single_pdf_success [OF assms(5) assms(6)]
  have tr: "trace ?r = interleave sched [fst ?pa, fst ?pb, fst ?pc]"
    using assms(1,2) by (simp add: run_pipeline_def Let_def)
  have "raised ?r = first_raised [snd ?pa, snd ?pb, snd ?pc]"
    using assms(1,2) by (simp add: run_pipeline_def Let_def)
  then have 1: "raised ?r = None" by (simp add: a b c)
  have 2: "dispatched ?r = [path_join folder A, path_join folder B, path_join folder C]"
    using assms(1,2) by (simp add: run_pipeline_def Let_def)
  have 3: "mset (inserted (trace ?r)) =
           {#mongo_document (path_join folder A)
               (custom_summarization E (remove_stopwords E ta) 3)
               (extract_keywords E (remove_stopwords E ta) 5),
             mongo_document (path_join folder C)
               (custom_summarization E (remove_stopwords E tc) 3)
               (extract_keywords E (remove_stopwords E tc) 5)#}"
    by (simp add: tr mset_inserted_interleave a b c)
  have "mset (filter is_error (trace ?r)) = {#St_error (error_message (path_join folder B) m)#}"
    unfolding tr mset_errors_interleave by (simp add: a b c)
  then have 4: "filter is_error (trace ?r) = [St_error (error_message (path_join folder B) m)]"
    by (simp only: mset_single_iff)
  have 5: "mset (trace ?r) = mset (fst ?pa) + mset (fst ?pb) + mset (fst ?pc)"
    by (simp add: tr mset_interleave)
  from 1 2 3 4 5 show ?thesis by (intro conjI)
qed

theorem batch_isolation_witness:
  "os_listdir demo_env ''docs'' = Inr [''a.pdf'', ''b.pdf'', ''notes.txt'', ''c.pdf''] \<and>
   filter (\<lambda>f. endswith f ''.pdf'') [''a.pdf'', ''b.pdf'', ''notes.txt'', ''c.pdf'']
     = [''a.pdf'', ''b.pdf'', ''c.pdf''] \<and>
   extract_text_from_pdf demo_env (path_join ''docs'' ''a.pdf'')
     = Inr (''The cats purr. Cats are pets.'', 3) \<and>
   extract_text_from_pdf demo_env (path_join ''docs'' ''b.pdf'')
     = Inl (Exception ''No /Root object!'') \<and>
   extract_text_from_pdf demo_env (path_join ''docs'' ''c.pdf'') = Inr (''Dogs bark.'', 1) \<and>
   (\<forall>d. mongo_insert_one demo_env ''db'' ''summaries'' d = None) \<and>
   raised (run_pipeline demo_env [2, 2, 0, 1, 0] ''docs'' ''db'' ''summaries'') = None \<and>
   mset (inserted (trace (run_pipeline demo_env [2, 2, 0, 1, 0] ''docs'' ''db'' ''summaries''))) =
     {#mongo_document (path_join ''docs'' ''a.pdf'')
         (custom_summarization demo_env (remove_stopwords demo_env ''The cats purr. Cats are pets.'') 3)
         (extract_keywords demo_env (remove_stopwords demo_env ''The cats purr. Cats are pets.'') 5),
       mongo_document (path_join ''docs'' ''c.pdf'')
         (custom_summarization demo_env (remove_stopwords demo_env ''Dogs bark.'') 3)
         (extract_keywords demo_env (remove_stopwords demo_env ''Dogs bark.'') 5)#} \<and>
   filter is_error (trace (run_pipeline demo_env [2, 2, 0, 1, 0] ''docs'' ''db'' ''summaries'')) =
     [St_error (error_message (path_join ''docs'' ''b.pdf'') ''No /Root object!'')] \<and>
   inserted (trace (run_pipeline demo_env [2, 2, 0, 1, 0] ''docs'' ''db'' ''summaries'')) =
     [\<lparr>pdf_name = ''c'', summary = ''Dogs bark.'', keywords_list = [''dogs'', ''bark'']\<rparr>,
      \<lparr>pdf_name = ''a'', summary = ''cats purr. Cats pets.'',
        keywords_list = [''cats'', ''purr'', ''pets'']\<rparr>]"
proof -
  have l: "os_listdir demo_env ''docs'' = Inr [''a.pdf'', ''b.pdf'', ''notes.txt'', ''c.pdf'']"
    by (simp add: demo_env_def demo_listdir_def)
  have f: "filter (\<lambda>f. endswith f ''.pdf'') [''a.pdf'', ''b.pdf'', ''notes.txt'', ''c.pdf'']
     = [''a.pdf'', ''b.pdf'', ''c.pdf'']"
    by (simp add: endswith_def)
  have a: "extract_text_from_pdf demo_env (path_join ''docs'' ''a.pdf'')
     = Inr (''The cats purr. Cats are pets.'', 3)"
    by code_simp
  have b: "extract_text_from_pdf demo_env (path_join ''docs'' ''b.pdf'')
     = Inl (Exception ''No /Root object!'')"
    by code_simp
  have c: "extract_text_from_pdf demo_env (path_join ''docs'' ''c.pdf'') = Inr (''Dogs bark.'', 1)"
    by code_simp
  have s: "\<forall>d. mongo_insert_one demo_env ''db'' ''summaries'' d = None"
    by (simp add: demo_env_def)
  have v: "inserted (trace (run_pipeline demo_env [2, 2, 0, 1, 0] ''docs'' ''db'' ''summaries'')) =
     [\<lparr>pdf_name = ''c'', summary = ''Dogs bark.'', keywords_list = [''dogs'', ''bark'']\<rparr>,
      \<lparr>pdf_name = ''a'', summary = ''cats purr. Cats pets.'',
        keywords_list = [''cats'', ''purr'', ''pets'']\<rparr>]"
    by code_simp
  note r = batch_isolation [OF l f a b c s, of "[2, 2, 0, 1, 0]"]
  note r1 = r [THEN conjunct1]
  note r3 = r [THEN conjunct2, THEN conjunct2, THEN conjunct1]
  note r4 = r [THEN conjunct2, THEN conjunct2, THEN conjunct2, THEN conjunct1]
  from l f a b c s r1 r3 r4 v show ?thesis by (intro conjI)
qed

end
